theory Spec2Isabelle
  imports Complex_Main "HOL-Library.Signed_Division"
begin

section \<open>Data model\<close>

text \<open>
  The program is \<^verbatim>\<open>src/trafix.cpp\<close>, which holds three successive versions of the
  simulator; the third (lines 547 to 919) is the complete one and is the one modelled,
  the allocator of the first two is modelled beside it.

  Conventions of the embedding.
  \<^item> A C++ \<^verbatim>\<open>int\<close> is a HOL \<^typ>\<open>int\<close>: the theorems speak about runs in which no
    \<^verbatim>\<open>int\<close> computation overflows. The constants \<^verbatim>\<open>INT_MAX\<close> and
    \<^verbatim>\<open>INF = 1e9\<close> of the program are kept, since the code compares against them.
  \<^item> A C++ \<^verbatim>\<open>double\<close> is the \<^typ>\<open>real\<close> it denotes and its arithmetic is exact.
  \<^item> Integer division and remainder truncate towards zero, as in C++ (\<open>sdiv\<close>, \<open>smod\<close>).
  \<^item> The arrays \<^verbatim>\<open>int q[4]\<close>, \<^verbatim>\<open>bool ambulance_override[4]\<close> and the vector
    \<^verbatim>\<open>times(4)\<close> have four cells, indexed 0 = N, 1 = S, 2 = E, 3 = W.
  \<^item> A result of type \<open>option\<close> is \<open>None\<close> where the C++ program has no defined
    result: an access outside an array or vector, or a loop that never ends.
\<close>

datatype 'a vec4 = Vec4 'a 'a 'a 'a

text \<open>Indexing is only ever used with indices 0 to 3.\<close>

fun nth4 :: "'a vec4 \<Rightarrow> nat \<Rightarrow> 'a" where
  "nth4 (Vec4 a b c d) i = (if i = 0 then a else if i = 1 then b else if i = 2 then c else d)"

fun upd4 :: "'a vec4 \<Rightarrow> nat \<Rightarrow> 'a \<Rightarrow> 'a vec4" where
  "upd4 (Vec4 a b c d) i x =
     (if i = 0 then Vec4 x b c d else if i = 1 then Vec4 a x c d
      else if i = 2 then Vec4 a b x d else Vec4 a b c x)"

fun sum4 :: "int vec4 \<Rightarrow> int" where
  "sum4 (Vec4 a b c d) = a + b + c + d"

record Edge =
  to :: int
  w :: int

text \<open>The field \<^verbatim>\<open>id\<close> of the struct is called \<open>node_id\<close> here.\<close>

record Intersection =
  node_id :: int
  q :: "int vec4"
  green_dir :: int
  ambulance_override :: "bool vec4"

definition INT_MAX :: int where
  "INT_MAX = 2147483647"

section \<open>Green-time allocator\<close>

text \<open>The C function \<^verbatim>\<open>round\<close>: the nearest integer, halves away from zero.\<close>

definition cround :: "real \<Rightarrow> int" where
  "cround x = (if 0 \<le> x then \<lfloor>x + 1 / 2\<rfloor> else \<lceil>x - 1 / 2\<rceil>)"

subsection \<open>The allocator of the third version (lines 684 to 710)\<close>

text \<open>Lines 692 to 697: the proportional shares, each at least one second.\<close>

definition proportional :: "int vec4 \<Rightarrow> int \<Rightarrow> int \<Rightarrow> int vec4 \<times> int" where
  "proportional qs total_q totalCycleSec =
     fold (\<lambda>i (tms, assigned).
             let ratio = real_of_int (nth4 qs i) / real_of_int total_q;
                 t = max 1 (cround (ratio * real_of_int totalCycleSec))
             in (upd4 tms i t, assigned + t))
          [0, 1, 2, 3] (Vec4 0 0 0 0, 0)"

text \<open>Lines 699 and 700: the direction with the smallest queue among those that hold
  more than one second; \<open>idx = -1\<close> when there is none.\<close>

definition pickDec :: "int vec4 \<Rightarrow> int vec4 \<Rightarrow> int \<times> int" where
  "pickDec qs tms =
     fold (\<lambda>i (idx, bestQ).
             if nth4 tms i > 1 \<and> nth4 qs i < bestQ then (int i, nth4 qs i) else (idx, bestQ))
          [0, 1, 2, 3] (- 1, INT_MAX)"

text \<open>Lines 705 and 706: the direction with the largest queue.\<close>

definition pickInc :: "int vec4 \<Rightarrow> int \<times> int" where
  "pickInc qs =
     fold (\<lambda>i (idx, bestQ).
             if nth4 qs i > bestQ then (int i, nth4 qs i) else (idx, bestQ))
          [0, 1, 2, 3] (- 1, - 1)"

text \<open>The two reconciliation loops. The third component of the state counts the
  adjustments made so far; the program does not hold it, and nothing is computed
  from it.\<close>

function decLoop :: "int vec4 \<Rightarrow> int \<Rightarrow> int vec4 \<times> int \<times> nat \<Rightarrow> int vec4 \<times> int \<times> nat" where
  "decLoop qs totalCycleSec (tms, assigned, k) =
     (if assigned > totalCycleSec then
        (let (idx, bestQ) = pickDec qs tms in
         if idx = - 1 then (tms, assigned, k)
         else decLoop qs totalCycleSec
                (upd4 tms (nat idx) (nth4 tms (nat idx) - 1), assigned - 1, Suc k))
      else (tms, assigned, k))"
  by pat_completeness auto
termination
  by (relation "measure (\<lambda>(qs, T, tms, assigned, k). nat (assigned - T))") auto

text \<open>With \<open>idx = -1\<close> line 707 writes \<^verbatim>\<open>times[-1]\<close>, outside the vector.\<close>

function incLoop :: "int vec4 \<Rightarrow> int \<Rightarrow> int vec4 \<times> int \<times> nat \<Rightarrow> (int vec4 \<times> int \<times> nat) option" where
  "incLoop qs totalCycleSec (tms, assigned, k) =
     (if assigned < totalCycleSec then
        (let (idx, bestQ) = pickInc qs in
         if idx = - 1 then None
         else incLoop qs totalCycleSec
                (upd4 tms (nat idx) (nth4 tms (nat idx) + 1), assigned + 1, Suc k))
      else Some (tms, assigned, k))"
  by pat_completeness auto
termination
  by (relation "measure (\<lambda>(qs, T, tms, assigned, k). nat (T - assigned))") auto

text \<open>The allocator together with the number of adjustments its two loops made.\<close>

definition allocateGreenTimes_run :: "Intersection \<Rightarrow> int \<Rightarrow> (int vec4 \<times> nat) option" where
  "allocateGreenTimes_run I totalCycleSec =
     (let total_q = nth4 (q I) 0 + nth4 (q I) 1 + nth4 (q I) 2 + nth4 (q I) 3 in
      if total_q = 0 then
        Some (upd4 (Vec4 (totalCycleSec sdiv 4) (totalCycleSec sdiv 4)
                         (totalCycleSec sdiv 4) (totalCycleSec sdiv 4))
                0 (totalCycleSec sdiv 4 + totalCycleSec smod 4), 0)
      else
        (case incLoop (q I) totalCycleSec
                (decLoop (q I) totalCycleSec
                   (fst (proportional (q I) total_q totalCycleSec),
                    snd (proportional (q I) total_q totalCycleSec), 0)) of
           None \<Rightarrow> None
         | Some (tms, assigned, k) \<Rightarrow> Some (tms, k)))"

definition allocateGreenTimes :: "Intersection \<Rightarrow> int \<Rightarrow> int vec4 option" where
  "allocateGreenTimes I totalCycleSec = map_option fst (allocateGreenTimes_run I totalCycleSec)"


subsection \<open>The allocator of the first version (lines 67 to 93)\<close>

text \<open>The same program text once more; its loops are modelled as the program holds
  them, without the count of adjustments.\<close>

definition proportional_first :: "int vec4 \<Rightarrow> int \<Rightarrow> int \<Rightarrow> int vec4 \<times> int" where
  "proportional_first qs total_q totalCycleSec =
     fold (\<lambda>i (tms, assigned).
             let ratio = real_of_int (nth4 qs i) / real_of_int total_q;
                 t = max 1 (cround (ratio * real_of_int totalCycleSec))
             in (upd4 tms i t, assigned + t))
          [0, 1, 2, 3] (Vec4 0 0 0 0, 0)"

definition pickDec_first :: "int vec4 \<Rightarrow> int vec4 \<Rightarrow> int \<times> int" where
  "pickDec_first qs tms =
     fold (\<lambda>i (idx, bestQ).
             if nth4 tms i > 1 \<and> nth4 qs i < bestQ then (int i, nth4 qs i) else (idx, bestQ))
          [0, 1, 2, 3] (- 1, INT_MAX)"

definition pickInc_first :: "int vec4 \<Rightarrow> int \<times> int" where
  "pickInc_first qs =
     fold (\<lambda>i (idx, bestQ).
             if nth4 qs i > bestQ then (int i, nth4 qs i) else (idx, bestQ))
          [0, 1, 2, 3] (- 1, - 1)"

function decLoop_first :: "int vec4 \<Rightarrow> int \<Rightarrow> int vec4 \<times> int \<Rightarrow> int vec4 \<times> int" where
  "decLoop_first qs totalCycleSec (tms, assigned) =
     (if assigned > totalCycleSec then
        (let (idx, bestQ) = pickDec_first qs tms in
         if idx = - 1 then (tms, assigned)
         else decLoop_first qs totalCycleSec
                (upd4 tms (nat idx) (nth4 tms (nat idx) - 1), assigned - 1))
      else (tms, assigned))"
  by pat_completeness auto
termination
  by (relation "measure (\<lambda>(qs, T, tms, assigned). nat (assigned - T))") auto

function incLoop_first :: "int vec4 \<Rightarrow> int \<Rightarrow> int vec4 \<times> int \<Rightarrow> (int vec4 \<times> int) option" where
  "incLoop_first qs totalCycleSec (tms, assigned) =
     (if assigned < totalCycleSec then
        (let (idx, bestQ) = pickInc_first qs in
         if idx = - 1 then None
         else incLoop_first qs totalCycleSec
                (upd4 tms (nat idx) (nth4 tms (nat idx) + 1), assigned + 1))
      else Some (tms, assigned))"
  by pat_completeness auto
termination
  by (relation "measure (\<lambda>(qs, T, tms, assigned). nat (T - assigned))") auto

definition allocateGreenTimes_first :: "Intersection \<Rightarrow> int \<Rightarrow> int vec4 option" where
  "allocateGreenTimes_first I totalCycleSec =
     (let total_q = nth4 (q I) 0 + nth4 (q I) 1 + nth4 (q I) 2 + nth4 (q I) 3 in
      if total_q = 0 then
        Some (upd4 (Vec4 (totalCycleSec sdiv 4) (totalCycleSec sdiv 4)
                         (totalCycleSec sdiv 4) (totalCycleSec sdiv 4))
                0 (totalCycleSec sdiv 4 + totalCycleSec smod 4))
      else
        map_option fst
          (incLoop_first (q I) totalCycleSec
             (decLoop_first (q I) totalCycleSec (proportional_first (q I) total_q totalCycleSec))))"

subsection \<open>The allocator of the second version (lines 283 to 315)\<close>

text \<open>The same program text once more; its loops are modelled as the program holds
  them, without the count of adjustments.\<close>

definition proportional_second :: "int vec4 \<Rightarrow> int \<Rightarrow> int \<Rightarrow> int vec4 \<times> int" where
  "proportional_second qs total_q totalCycleSec =
     fold (\<lambda>i (tms, assigned).
             let ratio = real_of_int (nth4 qs i) / real_of_int total_q;
                 t = max 1 (cround (ratio * real_of_int totalCycleSec))
             in (upd4 tms i t, assigned + t))
          [0, 1, 2, 3] (Vec4 0 0 0 0, 0)"

definition pickDec_second :: "int vec4 \<Rightarrow> int vec4 \<Rightarrow> int \<times> int" where
  "pickDec_second qs tms =
     fold (\<lambda>i (idx, bestQ).
             if nth4 tms i > 1 \<and> nth4 qs i < bestQ then (int i, nth4 qs i) else (idx, bestQ))
          [0, 1, 2, 3] (- 1, INT_MAX)"

definition pickInc_second :: "int vec4 \<Rightarrow> int \<times> int" where
  "pickInc_second qs =
     fold (\<lambda>i (idx, bestQ).
             if nth4 qs i > bestQ then (int i, nth4 qs i) else (idx, bestQ))
          [0, 1, 2, 3] (- 1, - 1)"

function decLoop_second :: "int vec4 \<Rightarrow> int \<Rightarrow> int vec4 \<times> int \<Rightarrow> int vec4 \<times> int" where
  "decLoop_second qs totalCycleSec (tms, assigned) =
     (if assigned > totalCycleSec then
        (let (idx, bestQ) = pickDec_second qs tms in
         if idx = - 1 then (tms, assigned)
         else decLoop_second qs totalCycleSec
                (upd4 tms (nat idx) (nth4 tms (nat idx) - 1), assigned - 1))
      else (tms, assigned))"
  by pat_completeness auto
termination
  by (relation "measure (\<lambda>(qs, T, tms, assigned). nat (assigned - T))") auto

function incLoop_second :: "int vec4 \<Rightarrow> int \<Rightarrow> int vec4 \<times> int \<Rightarrow> (int vec4 \<times> int) option" where
  "incLoop_second qs totalCycleSec (tms, assigned) =
     (if assigned < totalCycleSec then
        (let (idx, bestQ) = pickInc_second qs in
         if idx = - 1 then None
         else incLoop_second qs totalCycleSec
                (upd4 tms (nat idx) (nth4 tms (nat idx) + 1), assigned + 1))
      else Some (tms, assigned))"
  by pat_completeness auto
termination
  by (relation "measure (\<lambda>(qs, T, tms, assigned). nat (T - assigned))") auto

definition allocateGreenTimes_second :: "Intersection \<Rightarrow> int \<Rightarrow> int vec4 option" where
  "allocateGreenTimes_second I totalCycleSec =
     (let total_q = nth4 (q I) 0 + nth4 (q I) 1 + nth4 (q I) 2 + nth4 (q I) 3 in
      if total_q = 0 then
        Some (upd4 (Vec4 (totalCycleSec sdiv 4) (totalCycleSec sdiv 4)
                         (totalCycleSec sdiv 4) (totalCycleSec sdiv 4))
                0 (totalCycleSec sdiv 4 + totalCycleSec smod 4))
      else
        map_option fst
          (incLoop_second (q I) totalCycleSec
             (decLoop_second (q I) totalCycleSec (proportional_second (q I) total_q totalCycleSec))))"

section \<open>Cycle simulator (lines 713 to 781)\<close>

text \<open>The three accumulators that \<^verbatim>\<open>simulateCycle\<close> receives by reference.\<close>

record Metrics =
  vehiclesArrivedTotal :: int
  cumulativeQueueSum :: int
  totalVehiclesServed :: int







text \<open>Lines 753 to 769: the decision for one intersection, from the allocator's split.\<close>

definition hasOverride :: "Intersection \<Rightarrow> bool" where
  "hasOverride I =
     fold (\<lambda>d h. if nth4 (ambulance_override I) d then True else h) [0, 1, 2, 3] False"

definition giveDir :: "Intersection \<Rightarrow> int" where
  "giveDir I =
     (if nth4 (ambulance_override I) 0 then 0
      else if nth4 (ambulance_override I) 1 then 1
      else if nth4 (ambulance_override I) 2 then 2
      else if nth4 (ambulance_override I) 3 then 3
      else - 1)"

definition bestDir :: "int vec4 \<Rightarrow> nat" where
  "bestDir greenTimes =
     fold (\<lambda>d best. if nth4 greenTimes d > nth4 greenTimes best then d else best) [1, 2, 3] 0"

definition greenDecision :: "Intersection \<Rightarrow> int \<Rightarrow> int vec4 \<Rightarrow> int vec4 \<times> Intersection" where
  "greenDecision I totalCycleSec greenTimes =
     (if hasOverride I then
        (if giveDir I \<ge> 0 then
           (upd4 (fold (\<lambda>d g. upd4 g d 0) [0, 1, 2, 3] greenTimes) (nat (giveDir I)) totalCycleSec,
            I\<lparr>green_dir := giveDir I\<rparr>)
         else (greenTimes, I))
      else (greenTimes, I\<lparr>green_dir := int (bestDir greenTimes)\<rparr>))"

text \<open>The split an intersection is served with in a cycle: the allocator's, after the
  override.\<close>

definition finalGreenTimes :: "Intersection \<Rightarrow> int \<Rightarrow> int vec4 option" where
  "finalGreenTimes I totalCycleSec =
     map_option (\<lambda>greenTimes. fst (greenDecision I totalCycleSec greenTimes))
       (allocateGreenTimes I totalCycleSec)"

text \<open>Lines 771 to 777.\<close>

definition canServe :: "real \<Rightarrow> int \<Rightarrow> int" where
  "canServe serviceRate serveSec = \<lfloor>serviceRate * real_of_int serveSec + 1 / 1000000000\<rfloor>"

definition serveLane :: "real \<Rightarrow> int vec4 \<Rightarrow> nat \<Rightarrow> Intersection \<times> int \<Rightarrow> Intersection \<times> int" where
  "serveLane serviceRate greenTimes d = (\<lambda>(I, served_total).
     let serveSec = nth4 greenTimes d;
         served = min (canServe serviceRate serveSec) (nth4 (q I) d)
     in (I\<lparr>q := upd4 (q I) d (nth4 (q I) d - served)\<rparr>, served_total + served))"

text \<open>Lines 751 to 779: the body of the loop over the intersections.\<close>

definition serviceNode :: "int \<Rightarrow> real \<Rightarrow> Intersection \<Rightarrow> Metrics \<Rightarrow> (Intersection \<times> Metrics) option" where
  "serviceNode totalCycleSec serviceRate I m =
     (case allocateGreenTimes I totalCycleSec of
        None \<Rightarrow> None
      | Some greenTimes0 \<Rightarrow>
          let (greenTimes, I1) = greenDecision I totalCycleSec greenTimes0;
              (I2, served_total) =
                 fold (serveLane serviceRate greenTimes) [0, 1, 2, 3] (I1, totalVehiclesServed m)
          in Some (I2, m\<lparr>totalVehiclesServed := served_total,
                          cumulativeQueueSum := cumulativeQueueSum m +
                            (nth4 (q I2) 0 + nth4 (q I2) 1 + nth4 (q I2) 2 + nth4 (q I2) 3)\<rparr>))"



section \<open>Grid topology builder (lines 649 to 664)\<close>









section \<open>Router (lines 590 to 646)\<close>

text \<open>
  \<^verbatim>\<open>dijkstraPath\<close> and \<^verbatim>\<open>dijkstraCongestionPath\<close> are the same program text but for
  the cost of an edge (\<^verbatim>\<open>e.w\<close> in line 603, lines 632 and 633 in the other), so the
  search is modelled once, with the cost of an edge as a parameter; the cost has no
  defined value where \<^verbatim>\<open>city[v]\<close> is read outside the vector.

  The search state is \<open>(dists, parent, pq)\<close>, where \<open>dists\<close> is the vector
  \<^verbatim>\<open>dist\<close>. The priority queue is a list of pairs; its
  top is the least pair in the lexicographic order, as \<^verbatim>\<open>greater<pair<int,int>>\<close>
  makes it.
\<close>

text \<open>The constant \<^verbatim>\<open>INF\<close> of both routers.\<close>

definition INF_dist :: int where
  "INF_dist = 1000000000"

definition pair_less :: "int \<times> int \<Rightarrow> int \<times> int \<Rightarrow> bool" where
  "pair_less a b = (fst a < fst b \<or> (fst a = fst b \<and> snd a < snd b))"

definition pq_top :: "(int \<times> int) list \<Rightarrow> int \<times> int" where
  "pq_top pq = fold (\<lambda>x m. if pair_less x m then x else m) (tl pq) (hd pq)"

definition pq_pop :: "(int \<times> int) list \<Rightarrow> (int \<times> int) list" where
  "pq_pop pq = remove1 (pq_top pq) pq"

text \<open>Lines 601 to 608 (629 to 639): the loop over the edges of \<open>u\<close>.\<close>

fun relaxEdges ::
  "(Edge \<Rightarrow> int option) \<Rightarrow> int \<Rightarrow> Edge list \<Rightarrow> int list \<times> int list \<times> (int \<times> int) list
     \<Rightarrow> (int list \<times> int list \<times> (int \<times> int) list) option" where
  "relaxEdges cost u [] st = Some st"
| "relaxEdges cost u (e # es) (dists, parent, pq) =
     (let v = to e in
      case cost e of
        None \<Rightarrow> None
      | Some edgeWeight \<Rightarrow>
          if v < 0 \<or> int (length dists) \<le> v then None
          else if dists ! nat u + edgeWeight < dists ! nat v then
            relaxEdges cost u es
              (dists[nat v := dists ! nat u + edgeWeight], parent[nat v := u],
               (dists ! nat u + edgeWeight, v) # pq)
          else relaxEdges cost u es (dists, parent, pq))"

text \<open>Lines 597 to 609 (625 to 640): the main loop, which returns \<^verbatim>\<open>dist\<close> and
  \<open>parent\<close>.\<close>

partial_function (option) dijkstraLoop ::
  "(Edge \<Rightarrow> int option) \<Rightarrow> Edge list list \<Rightarrow> int \<Rightarrow> int list \<times> int list \<times> (int \<times> int) list
     \<Rightarrow> (int list \<times> int list) option" where
  "dijkstraLoop cost graph dest st =
     (if snd (snd st) = [] then Some (fst st, fst (snd st))
      else if fst (pq_top (snd (snd st))) \<noteq> fst st ! nat (snd (pq_top (snd (snd st)))) then
        dijkstraLoop cost graph dest (fst st, fst (snd st), pq_pop (snd (snd st)))
      else if snd (pq_top (snd (snd st))) = dest then Some (fst st, fst (snd st))
      else
        (case relaxEdges cost (snd (pq_top (snd (snd st))))
                (graph ! nat (snd (pq_top (snd (snd st)))))
                (fst st, fst (snd st), pq_pop (snd (snd st))) of
           None \<Rightarrow> None
         | Some st' \<Rightarrow> dijkstraLoop cost graph dest st'))"

text \<open>Line 612 (643): the walk from \<open>dest\<close> along \<open>parent\<close> until \<open>-1\<close>.\<close>

partial_function (option) parentWalk :: "int list \<Rightarrow> int \<Rightarrow> int list \<Rightarrow> int list option" where
  "parentWalk parent v path =
     (if v = - 1 then Some path
      else if v < 0 \<or> int (length parent) \<le> v then None
      else parentWalk parent (parent ! nat v) (path @ [v]))"

definition dijkstraWith :: "(Edge \<Rightarrow> int option) \<Rightarrow> int \<Rightarrow> int \<Rightarrow> Edge list list \<Rightarrow> int list option" where
  "dijkstraWith cost src dest graph =
     (let n = length graph in
      if src < 0 \<or> int n \<le> src \<or> dest < 0 \<or> int n \<le> dest then None
      else
        (case dijkstraLoop cost graph dest
                ((replicate n INF_dist)[nat src := 0], replicate n (- 1), [(0, src)]) of
           None \<Rightarrow> None
         | Some (dists, parent) \<Rightarrow>
             if dists ! nat dest = INF_dist then Some []
             else map_option rev (parentWalk parent dest [])))"

definition dijkstraPath :: "int \<Rightarrow> int \<Rightarrow> Edge list list \<Rightarrow> int list option" where
  "dijkstraPath src dest graph = dijkstraWith (\<lambda>e. Some (w e)) src dest graph"

text \<open>Lines 632 and 633.\<close>

definition congestionWeight :: "Intersection list \<Rightarrow> int \<Rightarrow> int" where
  "congestionWeight city v =
     (let congestion = nth4 (q (city ! nat v)) 0 + nth4 (q (city ! nat v)) 1
                     + nth4 (q (city ! nat v)) 2 + nth4 (q (city ! nat v)) 3
      in 1 + congestion sdiv 5)"

definition dijkstraCongestionPath ::
  "int \<Rightarrow> int \<Rightarrow> Edge list list \<Rightarrow> Intersection list \<Rightarrow> int list option" where
  "dijkstraCongestionPath src dest graph city =
     dijkstraWith
       (\<lambda>e. if to e < 0 \<or> int (length city) \<le> to e then None
            else Some (congestionWeight city (to e)))
       src dest graph"

section \<open>The program (lines 803 to 919)\<close>






subsection \<open>Predicates used in the statements\<close>

fun all4 :: "('a \<Rightarrow> bool) \<Rightarrow> 'a vec4 \<Rightarrow> bool" where
  "all4 P (Vec4 a b c d) = (P a \<and> P b \<and> P c \<and> P d)"






subsection \<open>Invariants of the search\<close>






section \<open>Properties of the allocator\<close>

text \<open>The loops are unfolded one iteration at a time, by hand.\<close>

declare decLoop.simps [simp del] incLoop.simps [simp del]
declare decLoop_first.simps [simp del] incLoop_first.simps [simp del]
declare decLoop_second.simps [simp del] incLoop_second.simps [simp del]

lemma nat_lt4_cases: "i < 4 \<Longrightarrow> i = 0 \<or> i = 1 \<or> i = 2 \<or> i = (3::nat)"
  by arith

lemma pickDec_cases:
  "pickDec qs tms = (idx, b) \<Longrightarrow>
     idx = - 1 \<or> (0 \<le> idx \<and> idx \<le> 3 \<and> 1 < nth4 tms (nat idx))"
  by (cases qs; cases tms) (auto simp: pickDec_def split: if_splits)

lemma pickDec_found:
  "all4 (\<lambda>x. x < INT_MAX) qs \<Longrightarrow> all4 (\<lambda>t. 1 \<le> t) tms \<Longrightarrow> 4 < sum4 tms \<Longrightarrow>
     fst (pickDec qs tms) \<noteq> - 1"
  by (cases qs; cases tms) (auto simp: pickDec_def split: if_splits)

lemma pickInc_cases:
  "pickInc qs = (idx, b) \<Longrightarrow> idx = - 1 \<or> (0 \<le> idx \<and> idx \<le> 3)"
  by (cases qs) (auto simp: pickInc_def split: if_splits)

lemma pickInc_found:
  "all4 (\<lambda>x. 0 \<le> x) qs \<Longrightarrow> fst (pickInc qs) \<noteq> - 1"
  by (cases qs) (auto simp: pickInc_def split: if_splits)

lemma upd4_dec:
  "0 \<le> idx \<Longrightarrow> idx \<le> 3 \<Longrightarrow> 1 < nth4 tms (nat idx) \<Longrightarrow> all4 (\<lambda>t. 1 \<le> t) tms \<Longrightarrow>
     all4 (\<lambda>t. 1 \<le> t) (upd4 tms (nat idx) (nth4 tms (nat idx) - 1)) \<and>
     sum4 (upd4 tms (nat idx) (nth4 tms (nat idx) - 1)) = sum4 tms - 1"
  by (cases tms) auto

lemma upd4_inc:
  "0 \<le> idx \<Longrightarrow> idx \<le> 3 \<Longrightarrow> all4 (\<lambda>t. 1 \<le> t) tms \<Longrightarrow>
     all4 (\<lambda>t. 1 \<le> t) (upd4 tms (nat idx) (nth4 tms (nat idx) + 1)) \<and>
     sum4 (upd4 tms (nat idx) (nth4 tms (nat idx) + 1)) = sum4 tms + 1"
  by (cases tms) auto


lemma decLoop_inv:
  "all4 (\<lambda>t. 1 \<le> t) tms \<Longrightarrow> assigned = sum4 tms \<Longrightarrow>
   decLoop qs T (tms, assigned, k) = (tms', assigned', k') \<Longrightarrow>
     all4 (\<lambda>t. 1 \<le> t) tms' \<and> assigned' = sum4 tms' \<and>
     int k' = int k + (assigned - assigned') \<and> assigned' \<le> assigned \<and>
     (assigned \<le> T \<longrightarrow> tms' = tms) \<and> (T < assigned \<longrightarrow> T \<le> assigned') \<and>
     (all4 (\<lambda>x. x < INT_MAX) qs \<and> 4 \<le> T \<and> T < assigned \<longrightarrow> assigned' = T)"
proof (induction qs T "(tms, assigned, k)" arbitrary: tms assigned k rule: decLoop.induct)
  case (1 qs T tms assigned k)
  show ?case
  proof (cases "T < assigned")
    case False
    with "1.prems" show ?thesis by (auto simp: decLoop.simps)
  next
    case True
    obtain idx b where pick: "pickDec qs tms = (idx, b)" by (cases "pickDec qs tms")
    show ?thesis
    proof (cases "idx = - 1")
      case stuck: True
      have "all4 (\<lambda>x. x < INT_MAX) qs \<and> 4 \<le> T \<longrightarrow> False"
        using pickDec_found [of qs tms] pick stuck True "1.prems"(1,2) by auto
      with "1.prems" True pick stuck show ?thesis by (auto simp: decLoop.simps)
    next
      case False
      with pickDec_cases [OF pick]
      have idx: "0 \<le> idx" "idx \<le> 3" "1 < nth4 tms (nat idx)" by auto
      let ?tms = "upd4 tms (nat idx) (nth4 tms (nat idx) - 1)"
      have step: "all4 (\<lambda>t. 1 \<le> t) ?tms" "sum4 ?tms = sum4 tms - 1"
        using upd4_dec [OF idx "1.prems"(1)] by auto
      have run: "decLoop qs T (?tms, assigned - 1, Suc k) = (tms', assigned', k')"
        using "1.prems"(3) True pick False by (subst (asm) decLoop.simps) simp
      have IH: "all4 (\<lambda>t. 1 \<le> t) tms' \<and> assigned' = sum4 tms' \<and>
          int k' = int (Suc k) + (assigned - 1 - assigned') \<and> assigned' \<le> assigned - 1 \<and>
          (assigned - 1 \<le> T \<longrightarrow> tms' = ?tms) \<and> (T < assigned - 1 \<longrightarrow> T \<le> assigned') \<and>
          (all4 (\<lambda>x. x < INT_MAX) qs \<and> 4 \<le> T \<and> T < assigned - 1 \<longrightarrow> assigned' = T)"
        by (rule "1.hyps" [OF True refl pick [symmetric] False step(1) _ run])
           (simp add: step(2) "1.prems"(2))
      have "assigned - 1 \<le> T \<Longrightarrow> assigned' = T"
      proof -
        assume a: "assigned - 1 \<le> T"
        with IH have "tms' = ?tms" by simp
        with IH step(2) "1.prems"(2) have "assigned' = assigned - 1" by simp
        with a True show ?thesis by simp
      qed
      with IH True show ?thesis by auto
    qed
  qed
qed

lemma incLoop_inv:
  "all4 (\<lambda>t. 1 \<le> t) tms \<Longrightarrow> assigned = sum4 tms \<Longrightarrow> all4 (\<lambda>x. 0 \<le> x) qs \<Longrightarrow>
   \<exists>tms' k'. incLoop qs T (tms, assigned, k) = Some (tms', max assigned T, k') \<and>
     all4 (\<lambda>t. 1 \<le> t) tms' \<and> max assigned T = sum4 tms' \<and>
     int k' = int k + (max assigned T - assigned)"
proof (induction qs T "(tms, assigned, k)" arbitrary: tms assigned k rule: incLoop.induct)
  case (1 qs T tms assigned k)
  show ?case
  proof (cases "assigned < T")
    case False
    with "1.prems" show ?thesis by (simp add: max_def incLoop.simps)
  next
    case True
    obtain idx b where pick: "pickInc qs = (idx, b)" by (cases "pickInc qs")
    have ne: "idx \<noteq> - 1" using pickInc_found [OF "1.prems"(3)] pick by simp
    with pickInc_cases [OF pick] have idx: "0 \<le> idx" "idx \<le> 3" by auto
    let ?tms = "upd4 tms (nat idx) (nth4 tms (nat idx) + 1)"
    have step: "all4 (\<lambda>t. 1 \<le> t) ?tms" "sum4 ?tms = sum4 tms + 1"
      using upd4_inc [OF idx "1.prems"(1)] by auto
    have eq: "incLoop qs T (tms, assigned, k) = incLoop qs T (?tms, assigned + 1, Suc k)"
      using True pick ne by (subst incLoop.simps) simp
    have "\<exists>tms' k'. incLoop qs T (?tms, assigned + 1, Suc k) = Some (tms', max (assigned + 1) T, k') \<and>
            all4 (\<lambda>t. 1 \<le> t) tms' \<and> max (assigned + 1) T = sum4 tms' \<and>
            int k' = int (Suc k) + (max (assigned + 1) T - (assigned + 1))"
      by (rule "1.hyps" [OF True refl pick [symmetric] ne step(1) _ "1.prems"(3)])
         (simp add: step(2) "1.prems"(2))
    moreover have "max (assigned + 1) T = max assigned T" using True by simp
    ultimately show ?thesis unfolding eq by auto
  qed
qed


lemma proportional_unfold:
  "proportional (Vec4 a b c d) tot T =
     (Vec4 (max 1 (cround (real_of_int a / real_of_int tot * real_of_int T)))
           (max 1 (cround (real_of_int b / real_of_int tot * real_of_int T)))
           (max 1 (cround (real_of_int c / real_of_int tot * real_of_int T)))
           (max 1 (cround (real_of_int d / real_of_int tot * real_of_int T))),
      max 1 (cround (real_of_int a / real_of_int tot * real_of_int T)) +
      max 1 (cround (real_of_int b / real_of_int tot * real_of_int T)) +
      max 1 (cround (real_of_int c / real_of_int tot * real_of_int T)) +
      max 1 (cround (real_of_int d / real_of_int tot * real_of_int T)))"
  by (simp add: proportional_def Let_def)



lemma sdiv_nonneg_eq: "0 \<le> a \<Longrightarrow> 0 < b \<Longrightarrow> (a::int) sdiv b = a div b"
  by (simp add: signed_divide_int_def sgn_if)

lemma smod_nonneg_eq: "0 \<le> a \<Longrightarrow> 0 < b \<Longrightarrow> (a::int) smod b = a mod b"
  by (simp add: signed_modulo_int_def sgn_if)

text \<open>
  Claim C7. For every \<open>cycleSeconds > 0\<close>, when all four queues are zero the allocator
  returns four equal integer parts \<open>cycleSeconds div 4\<close>, with the whole remainder
  \<open>cycleSeconds mod 4\<close> added to the first direction (North).
\<close>

theorem allocateGreenTimes_all_zero:
  assumes "0 < T" and "q I = Vec4 0 0 0 0"
  shows "allocateGreenTimes I T = Some (Vec4 (T div 4 + T mod 4) (T div 4) (T div 4) (T div 4))"
  using assms
  by (simp add: allocateGreenTimes_def allocateGreenTimes_run_def sdiv_nonneg_eq smod_nonneg_eq)

theorem allocateGreenTimes_all_zero_witness:
  "(0::int) < 30 \<and> q \<lparr>node_id = 0, q = Vec4 0 0 0 0, green_dir = - 1,
                        ambulance_override = Vec4 False False False False\<rparr> = Vec4 0 0 0 0
   \<and> allocateGreenTimes \<lparr>node_id = 0, q = Vec4 0 0 0 0, green_dir = - 1,
                        ambulance_override = Vec4 False False False False\<rparr> 30
       = Some (Vec4 9 7 7 7)"
  using allocateGreenTimes_all_zero [of 30 "\<lparr>node_id = 0, q = Vec4 0 0 0 0, green_dir = - 1,
                        ambulance_override = Vec4 False False False False\<rparr>"]
  by simp


lemma allocateGreenTimes_run_unfold:
  "allocateGreenTimes_run I T =
     (if sum4 (q I) = 0 then
        Some (Vec4 (T sdiv 4 + T smod 4) (T sdiv 4) (T sdiv 4) (T sdiv 4), 0)
      else
        (case incLoop (q I) T
                (decLoop (q I) T
                   (fst (proportional (q I) (sum4 (q I)) T),
                    snd (proportional (q I) (sum4 (q I)) T), 0)) of
           None \<Rightarrow> None
         | Some (tms, assigned, k) \<Rightarrow> Some (tms, k)))"
  by (cases "q I") (simp add: allocateGreenTimes_run_def Let_def)








lemma pick_variants:
  "pickDec_first = pickDec" "pickDec_second = pickDec"
  "pickInc_first = pickInc" "pickInc_second = pickInc"
  "proportional_first = proportional" "proportional_second = proportional"
  by (simp_all add: fun_eq_iff pickDec_first_def pickDec_second_def pickDec_def
        pickInc_first_def pickInc_second_def pickInc_def
        proportional_first_def proportional_second_def proportional_def)

lemma decLoop_first_eq:
  "decLoop_first qs T (tms, a) = (case decLoop qs T (tms, a, k) of (t, a', k') \<Rightarrow> (t, a'))"
proof (induction qs T "(tms, a, k)" arbitrary: tms a k rule: decLoop.induct)
  case (1 qs T tms a k)
  obtain idx b where pick: "pickDec qs tms = (idx, b)" by (cases "pickDec qs tms")
  show ?case
  proof (cases "T < a \<and> idx \<noteq> - 1")
    case False
    then show ?thesis by (auto simp: pick pick_variants decLoop.simps incLoop.simps decLoop_first.simps decLoop_second.simps incLoop_first.simps incLoop_second.simps)
  next
    case True
    then have T: "T < a" and ne: "idx \<noteq> - 1" by simp_all
    have l: "decLoop_first qs T (tms, a) =
             decLoop_first qs T (upd4 tms (nat idx) (nth4 tms (nat idx) - 1), a - 1)"
      by (subst decLoop_first.simps) (simp add: T ne pick pick_variants)
    have r: "decLoop qs T (tms, a, k) =
             decLoop qs T (upd4 tms (nat idx) (nth4 tms (nat idx) - 1), a - 1, Suc k)"
      by (subst decLoop.simps) (simp add: T ne pick)
    show ?thesis
      unfolding l r by (rule "1.hyps" [OF T refl pick [symmetric] ne])
  qed
qed

lemma decLoop_second_eq:
  "decLoop_second qs T (tms, a) = (case decLoop qs T (tms, a, k) of (t, a', k') \<Rightarrow> (t, a'))"
proof (induction qs T "(tms, a, k)" arbitrary: tms a k rule: decLoop.induct)
  case (1 qs T tms a k)
  obtain idx b where pick: "pickDec qs tms = (idx, b)" by (cases "pickDec qs tms")
  show ?case
  proof (cases "T < a \<and> idx \<noteq> - 1")
    case False
    then show ?thesis by (auto simp: pick pick_variants decLoop.simps incLoop.simps decLoop_first.simps decLoop_second.simps incLoop_first.simps incLoop_second.simps)
  next
    case True
    then have T: "T < a" and ne: "idx \<noteq> - 1" by simp_all
    have l: "decLoop_second qs T (tms, a) =
             decLoop_second qs T (upd4 tms (nat idx) (nth4 tms (nat idx) - 1), a - 1)"
      by (subst decLoop_second.simps) (simp add: T ne pick pick_variants)
    have r: "decLoop qs T (tms, a, k) =
             decLoop qs T (upd4 tms (nat idx) (nth4 tms (nat idx) - 1), a - 1, Suc k)"
      by (subst decLoop.simps) (simp add: T ne pick)
    show ?thesis
      unfolding l r by (rule "1.hyps" [OF T refl pick [symmetric] ne])
  qed
qed

lemma incLoop_first_eq:
  "incLoop_first qs T (tms, a) = map_option (\<lambda>(t, a', k'). (t, a')) (incLoop qs T (tms, a, k))"
proof (induction qs T "(tms, a, k)" arbitrary: tms a k rule: incLoop.induct)
  case (1 qs T tms a k)
  obtain idx b where pick: "pickInc qs = (idx, b)" by (cases "pickInc qs")
  show ?case
  proof (cases "a < T \<and> idx \<noteq> - 1")
    case False
    then show ?thesis by (auto simp: pick pick_variants decLoop.simps incLoop.simps decLoop_first.simps decLoop_second.simps incLoop_first.simps incLoop_second.simps)
  next
    case True
    then have T: "a < T" and ne: "idx \<noteq> - 1" by simp_all
    have l: "incLoop_first qs T (tms, a) =
             incLoop_first qs T (upd4 tms (nat idx) (nth4 tms (nat idx) + 1), a + 1)"
      by (subst incLoop_first.simps) (simp add: T ne pick pick_variants)
    have r: "incLoop qs T (tms, a, k) =
             incLoop qs T (upd4 tms (nat idx) (nth4 tms (nat idx) + 1), a + 1, Suc k)"
      by (subst incLoop.simps) (simp add: T ne pick)
    show ?thesis
      unfolding l r by (rule "1.hyps" [OF T refl pick [symmetric] ne])
  qed
qed

lemma incLoop_second_eq:
  "incLoop_second qs T (tms, a) = map_option (\<lambda>(t, a', k'). (t, a')) (incLoop qs T (tms, a, k))"
proof (induction qs T "(tms, a, k)" arbitrary: tms a k rule: incLoop.induct)
  case (1 qs T tms a k)
  obtain idx b where pick: "pickInc qs = (idx, b)" by (cases "pickInc qs")
  show ?case
  proof (cases "a < T \<and> idx \<noteq> - 1")
    case False
    then show ?thesis by (auto simp: pick pick_variants decLoop.simps incLoop.simps decLoop_first.simps decLoop_second.simps incLoop_first.simps incLoop_second.simps)
  next
    case True
    then have T: "a < T" and ne: "idx \<noteq> - 1" by simp_all
    have l: "incLoop_second qs T (tms, a) =
             incLoop_second qs T (upd4 tms (nat idx) (nth4 tms (nat idx) + 1), a + 1)"
      by (subst incLoop_second.simps) (simp add: T ne pick pick_variants)
    have r: "incLoop qs T (tms, a, k) =
             incLoop qs T (upd4 tms (nat idx) (nth4 tms (nat idx) + 1), a + 1, Suc k)"
      by (subst incLoop.simps) (simp add: T ne pick)
    show ?thesis
      unfolding l r by (rule "1.hyps" [OF T refl pick [symmetric] ne])
  qed
qed

lemma allocateGreenTimes_first_eq: "allocateGreenTimes_first I T = allocateGreenTimes I T"
proof -
  let ?P = "proportional (q I) (sum4 (q I)) T"
  obtain t1 a1 k1 where dec: "decLoop (q I) T (fst ?P, snd ?P, 0) = (t1, a1, k1)"
    by (cases "decLoop (q I) T (fst ?P, snd ?P, 0)")
  have d: "decLoop_first (q I) T ?P = (t1, a1)"
    using decLoop_first_eq [of "q I" T "fst ?P" "snd ?P" 0] by (simp add: dec)
  have "allocateGreenTimes_first I T =
     (if sum4 (q I) = 0 then
        Some (Vec4 (T sdiv 4 + T smod 4) (T sdiv 4) (T sdiv 4) (T sdiv 4))
      else map_option fst (incLoop_first (q I) T (decLoop_first (q I) T (proportional_first (q I) (sum4 (q I)) T))))"
    by (cases "q I") (simp add: allocateGreenTimes_first_def Let_def)
  then show ?thesis
    by (cases "incLoop (q I) T (t1, a1, k1)")
       (auto simp: allocateGreenTimes_def allocateGreenTimes_run_unfold pick_variants d dec
          incLoop_first_eq [of _ _ _ _ k1])
qed

lemma allocateGreenTimes_second_eq: "allocateGreenTimes_second I T = allocateGreenTimes I T"
proof -
  let ?P = "proportional (q I) (sum4 (q I)) T"
  obtain t1 a1 k1 where dec: "decLoop (q I) T (fst ?P, snd ?P, 0) = (t1, a1, k1)"
    by (cases "decLoop (q I) T (fst ?P, snd ?P, 0)")
  have d: "decLoop_second (q I) T ?P = (t1, a1)"
    using decLoop_second_eq [of "q I" T "fst ?P" "snd ?P" 0] by (simp add: dec)
  have "allocateGreenTimes_second I T =
     (if sum4 (q I) = 0 then
        Some (Vec4 (T sdiv 4 + T smod 4) (T sdiv 4) (T sdiv 4) (T sdiv 4))
      else map_option fst (incLoop_second (q I) T (decLoop_second (q I) T (proportional_second (q I) (sum4 (q I)) T))))"
    by (cases "q I") (simp add: allocateGreenTimes_second_def Let_def)
  then show ?thesis
    by (cases "incLoop (q I) T (t1, a1, k1)")
       (auto simp: allocateGreenTimes_def allocateGreenTimes_run_unfold pick_variants d dec
          incLoop_second_eq [of _ _ _ _ k1])
qed

text \<open>
  Claim C10. The three copies of the allocator in the source file compute the same
  function: for every intersection and every cycle length the first and the second
  return what the third returns (also where that is no defined result).
\<close>

theorem allocateGreenTimes_variants_agree:
  "allocateGreenTimes_first I T = allocateGreenTimes I T \<and>
   allocateGreenTimes_second I T = allocateGreenTimes I T"
  by (simp add: allocateGreenTimes_first_eq allocateGreenTimes_second_eq)



section \<open>Properties of the cycle simulator\<close>







lemma all_lt4: "(\<forall>d<4. P d) = (P 0 \<and> P 1 \<and> P 2 \<and> P (3::nat))"
proof -
  have "{..<4::nat} = {0, 1, 2, 3}" by auto
  then have "(\<forall>d<4. P d) = (\<forall>d\<in>{0, 1, 2, 3::nat}. P d)" by (metis lessThan_iff)
  then show ?thesis by simp
qed

lemma sum_lt4: "(\<Sum>d<4. f d) = f 0 + f 1 + f 2 + f (3::nat)"
  by (simp add: eval_nat_numeral lessThan_Suc algebra_simps)

lemma greenDecision_q [simp]: "q (snd (greenDecision I T g)) = q I"
  and greenDecision_flags [simp]: "ambulance_override (snd (greenDecision I T g)) = ambulance_override I"
  and greenDecision_id [simp]: "node_id (snd (greenDecision I T g)) = node_id I"
  by (simp_all add: greenDecision_def)

lemma serve_fold:
  assumes "q I = Vec4 a b c d" and "g = Vec4 ga gb gc gd"
  shows "fold (serveLane rate g) [0, 1, 2, 3] (I, s) =
           (I\<lparr>q := Vec4 (a - min (canServe rate ga) a) (b - min (canServe rate gb) b)
                        (c - min (canServe rate gc) c) (d - min (canServe rate gd) d)\<rparr>,
            s + min (canServe rate ga) a + min (canServe rate gb) b
              + min (canServe rate gc) c + min (canServe rate gd) d)"
  using assms by (simp add: serveLane_def Let_def)

lemma serviceNode_Some:
  assumes alloc: "allocateGreenTimes I T = Some g0"
  shows "\<exists>I' m'. serviceNode T rate I m = Some (I', m') \<and>
           green_dir I' = green_dir (snd (greenDecision I T g0)) \<and>
           ambulance_override I' = ambulance_override I \<and> node_id I' = node_id I \<and>
           (\<forall>d<4. nth4 (q I') d = nth4 (q I) d -
                     min (canServe rate (nth4 (fst (greenDecision I T g0)) d)) (nth4 (q I) d)) \<and>
           totalVehiclesServed m' = totalVehiclesServed m +
             (\<Sum>d<4. min (canServe rate (nth4 (fst (greenDecision I T g0)) d)) (nth4 (q I) d)) \<and>
           vehiclesArrivedTotal m' = vehiclesArrivedTotal m \<and>
           cumulativeQueueSum m' = cumulativeQueueSum m + sum4 (q I')"
proof -
  obtain g I1 where gd: "greenDecision I T g0 = (g, I1)" by (cases "greenDecision I T g0")
  obtain a b c d where Q: "q I = Vec4 a b c d" by (cases "q I")
  obtain ga gb gc gd where G: "g = Vec4 ga gb gc gd" by (cases g)
  have Q1: "q I1 = Vec4 a b c d" using greenDecision_q [of I T g0] by (simp add: gd Q)
  have F1: "ambulance_override I1 = ambulance_override I" "node_id I1 = node_id I"
    using greenDecision_flags [of I T g0] greenDecision_id [of I T g0] by (simp_all add: gd)
  define I2 where "I2 = I1\<lparr>q := Vec4 (a - min (canServe rate ga) a) (b - min (canServe rate gb) b)
                        (c - min (canServe rate gc) c) (d - min (canServe rate gd) d)\<rparr>"
  define s2 where "s2 = totalVehiclesServed m + min (canServe rate ga) a + min (canServe rate gb) b
              + min (canServe rate gc) c + min (canServe rate gd) d"
  have sf: "fold (serveLane rate g) [0, 1, 2, 3] (I1, totalVehiclesServed m) = (I2, s2)"
    using serve_fold [OF Q1 G, of rate "totalVehiclesServed m"] by (simp only: I2_def s2_def)
  have run: "serviceNode T rate I m =
      Some (I2, m\<lparr>totalVehiclesServed := s2,
                     cumulativeQueueSum := cumulativeQueueSum m +
                        (nth4 (q I2) 0 + nth4 (q I2) 1 + nth4 (q I2) 2 + nth4 (q I2) 3)\<rparr>)"
    by (simp only: serviceNode_def alloc option.case gd Let_def prod.case sf)
  have g: "fst (greenDecision I T g0) = Vec4 ga gb gc gd" "snd (greenDecision I T g0) = I1"
    by (simp_all add: gd G)
  show ?thesis
    unfolding run g by (simp add: I2_def s2_def Q F1 all_lt4 sum_lt4)
qed


lemma proportional_ge1:
  "all4 (\<lambda>t. 1 \<le> t) (fst (proportional qs tot T))"
  "snd (proportional qs tot T) = sum4 (fst (proportional qs tot T))"
  by (cases qs; simp add: proportional_unfold)+

lemma allocateGreenTimes_defined:
  assumes nonneg: "all4 (\<lambda>x. 0 \<le> x) (q I)"
  shows "\<exists>g. allocateGreenTimes I T = Some g"
proof (cases "sum4 (q I) = 0")
  case True
  then show ?thesis by (simp add: allocateGreenTimes_def allocateGreenTimes_run_unfold)
next
  case False
  let ?P = "proportional (q I) (sum4 (q I)) T"
  obtain t1 a1 k1 where dec: "decLoop (q I) T (fst ?P, snd ?P, 0) = (t1, a1, k1)"
    by (cases "decLoop (q I) T (fst ?P, snd ?P, 0)")
  from decLoop_inv [OF proportional_ge1 dec]
  have ge1: "all4 (\<lambda>t. 1 \<le> t) t1" and a1: "a1 = sum4 t1" by simp_all
  from incLoop_inv [OF ge1 a1 nonneg, of T k1]
  obtain t2 k2 where "incLoop (q I) T (t1, a1, k1) = Some (t2, max a1 T, k2)" by blast
  then show ?thesis
    using False by (simp add: allocateGreenTimes_def allocateGreenTimes_run_unfold dec)
qed










lemma lt4_cases: "d < 4 \<Longrightarrow> d = 0 \<or> d = 1 \<or> d = 2 \<or> d = (3::nat)"
  by arith

lemma greenDecision_override:
  assumes d: "d < 4" and flag: "nth4 (ambulance_override I) d"
    and first: "\<forall>d'<d. \<not> nth4 (ambulance_override I) d'"
  shows "greenDecision I T g0 = (upd4 (Vec4 0 0 0 0) d T, I\<lparr>green_dir := int d\<rparr>)"
proof -
  obtain f0 f1 f2 f3 where F: "ambulance_override I = Vec4 f0 f1 f2 f3"
    by (cases "ambulance_override I")
  obtain a b c e where G: "g0 = Vec4 a b c e" by (cases g0)
  from lt4_cases [OF d] show ?thesis
  proof (elim disjE)
    assume "d = 0"
    with flag show ?thesis by (simp add: greenDecision_def hasOverride_def giveDir_def F G)
  next
    assume "d = 1"
    with flag first show ?thesis by (simp add: greenDecision_def hasOverride_def giveDir_def F G)
  next
    assume d2: "d = 2"
    with first have "\<not> nth4 (ambulance_override I) 0" "\<not> nth4 (ambulance_override I) 1" by simp_all
    with flag d2 show ?thesis by (simp add: greenDecision_def hasOverride_def giveDir_def F G)
  next
    assume d3: "d = 3"
    with first have "\<not> nth4 (ambulance_override I) 0" "\<not> nth4 (ambulance_override I) 1"
      "\<not> nth4 (ambulance_override I) 2" by simp_all
    with flag d3 show ?thesis by (simp add: greenDecision_def hasOverride_def giveDir_def F G)
  qed
qed

text \<open>
  Claim C3. For every intersection with non-negative queues that has at least one
  override flag set, whatever its queues are, the split it is served with gives the whole
  cycle to the first overridden direction in the order N, S, E, W and 0 seconds to the
  others, and that direction is recorded as its green direction. With the override on
  East the split is \<open>[0, 0, cycleSeconds, 0]\<close> and the green direction is E (the
  witness).
\<close>

theorem override_awards_whole_cycle:
  assumes "d < 4" and "nth4 (ambulance_override I) d"
    and "\<forall>d'<d. \<not> nth4 (ambulance_override I) d'"
    and "all4 (\<lambda>x. 0 \<le> x) (q I)"
  shows "finalGreenTimes I T = Some (upd4 (Vec4 0 0 0 0) d T) \<and>
         (\<exists>I' m'. serviceNode T rate I m = Some (I', m') \<and> green_dir I' = int d)"
proof -
  obtain g0 where alloc: "allocateGreenTimes I T = Some g0"
    using allocateGreenTimes_defined [OF assms(4)] by blast
  note gd = greenDecision_override [OF assms(1,2,3), of T g0]
  have "finalGreenTimes I T = Some (upd4 (Vec4 0 0 0 0) d T)"
    by (simp add: finalGreenTimes_def alloc gd)
  moreover have "\<exists>I' m'. serviceNode T rate I m = Some (I', m') \<and> green_dir I' = int d"
    using serviceNode_Some [OF alloc, of rate m] by (auto simp: gd)
  ultimately show ?thesis by blast
qed

theorem override_awards_whole_cycle_witness:
  "finalGreenTimes \<lparr>node_id = 0, q = Vec4 10 20 30 40, green_dir = - 1,
          ambulance_override = Vec4 False False True False\<rparr> 30 = Some (Vec4 0 0 30 0) \<and>
   (\<exists>I' m'. serviceNode 30 (1 / 2) \<lparr>node_id = 0, q = Vec4 10 20 30 40, green_dir = - 1,
          ambulance_override = Vec4 False False True False\<rparr>
          \<lparr>vehiclesArrivedTotal = 0, cumulativeQueueSum = 0, totalVehiclesServed = 0\<rparr> = Some (I', m')
        \<and> green_dir I' = 2)"
  using override_awards_whole_cycle [of 2 "\<lparr>node_id = 0, q = Vec4 10 20 30 40, green_dir = - 1,
          ambulance_override = Vec4 False False True False\<rparr>" 30 "1 / 2"
          "\<lparr>vehiclesArrivedTotal = 0, cumulativeQueueSum = 0, totalVehiclesServed = 0\<rparr>"]
  by (simp add: all_lt4)







section \<open>Properties of the router\<close>






















lemma pq_top_single [simp]: "pq_top [x] = x"
  by (simp add: pq_top_def)

lemma dijkstraWith_same:
  assumes "0 \<le> s" and "s < int (length graph)"
  shows "dijkstraWith cost s s graph = Some [s]"
proof -
  let ?n = "length graph"
  let ?dists = "(replicate ?n INF_dist)[nat s := 0]"
  let ?parent = "replicate ?n (- 1 :: int)"
  have s: "nat s < ?n" using assms by simp
  have d: "?dists ! nat s = 0" using s by simp
  have loop: "dijkstraLoop cost graph s (?dists, ?parent, [(0, s)]) = Some (?dists, ?parent)"
    by (subst dijkstraLoop.simps) (simp add: d)
  have "parentWalk ?parent s [] = parentWalk ?parent (- 1) [s]"
    using assms s by (subst parentWalk.simps) simp
  also have "\<dots> = Some [s]" by (subst parentWalk.simps) simp
  finally have walk: "parentWalk ?parent s [] = Some [s]" .
  have "0 \<noteq> INF_dist" by (simp add: INF_dist_def)
  then show ?thesis
    using assms by (simp add: dijkstraWith_def Let_def loop d walk)
qed

text \<open>
  Claim C9. For every node \<open>s\<close> of the graph, both routers called with source and
  destination \<open>s\<close> return the single-node path \<open>[s]\<close>, not the empty sequence.
\<close>

theorem router_same_node:
  assumes "0 \<le> s" and "s < int (length graph)"
  shows "dijkstraPath s s graph = Some [s] \<and> dijkstraCongestionPath s s graph city = Some [s]"
  using assms by (simp add: dijkstraPath_def dijkstraCongestionPath_def dijkstraWith_same)

theorem router_same_node_witness:
  "(0::int) \<le> 3 \<and> (3::int) < int (length [[\<lparr>to = 2, w = 1\<rparr>, \<lparr>to = 1, w = 1\<rparr>], [\<lparr>to = 3, w = 1\<rparr>, \<lparr>to = 0, w = 1\<rparr>],
        [\<lparr>to = 0, w = 1\<rparr>, \<lparr>to = 3, w = 1\<rparr>], [\<lparr>to = 1, w = 1\<rparr>, \<lparr>to = 2, w = 1\<rparr>]]) \<and>
   dijkstraPath 3 3 [[\<lparr>to = 2, w = 1\<rparr>, \<lparr>to = 1, w = 1\<rparr>], [\<lparr>to = 3, w = 1\<rparr>, \<lparr>to = 0, w = 1\<rparr>],
        [\<lparr>to = 0, w = 1\<rparr>, \<lparr>to = 3, w = 1\<rparr>], [\<lparr>to = 1, w = 1\<rparr>, \<lparr>to = 2, w = 1\<rparr>]] = Some [3] \<and>
   dijkstraCongestionPath 3 3 [[\<lparr>to = 2, w = 1\<rparr>, \<lparr>to = 1, w = 1\<rparr>], [\<lparr>to = 3, w = 1\<rparr>, \<lparr>to = 0, w = 1\<rparr>],
        [\<lparr>to = 0, w = 1\<rparr>, \<lparr>to = 3, w = 1\<rparr>], [\<lparr>to = 1, w = 1\<rparr>, \<lparr>to = 2, w = 1\<rparr>]] [] = Some [3]"
  using router_same_node [of 3 "[[\<lparr>to = 2, w = 1\<rparr>, \<lparr>to = 1, w = 1\<rparr>], [\<lparr>to = 3, w = 1\<rparr>, \<lparr>to = 0, w = 1\<rparr>],
        [\<lparr>to = 0, w = 1\<rparr>, \<lparr>to = 3, w = 1\<rparr>], [\<lparr>to = 1, w = 1\<rparr>, \<lparr>to = 2, w = 1\<rparr>]]" "[]"]
  by simp












section \<open>Properties of the program\<close>










end
